theory Spec2Isabelle
  imports Main
begin

section \<open>JavaScript values used by the editor\<close>

text \<open>
  The component \<open>CodeEditor\<close> works on strings, on Numbers that hold line numbers and on
  plain objects used as dictionaries.  Strings are modelled as \<^typ>\<open>string\<close>; the
  characters the code inspects (the letters of \<open>line \<close>, the decimal digits, the sign and the
  newline) are ASCII, so every other code unit is just a character that matches none of them.

  A Number is a double.  The Numbers that \<open>runCode\<close> computes are whole: \<open>parseInt\<close> of a
  digit run, that value minus one, \<open>parseInt\<close> of a key and that value plus one.  So a Number
  is modelled as the integer it stands for, or one of \<open>NaN\<close>, \<open>Infinity\<close> and \<open>-Infinity\<close>,
  and every operation rounds its exact result to the nearest double (to the even mantissa
  in a tie), which changes nothing below \<open>2^53\<close>.
\<close>

datatype jsnum = Num int | NaN | PosInf | NegInf

text \<open>
  The number of low bits that a double drops from a nonnegative integer: none below
  \<open>2^53\<close>, and one more for every further binary digit.
\<close>

function exponent_of :: "int \<Rightarrow> nat" where
  "exponent_of x = (if x < 2 ^ 53 then 0 else Suc (exponent_of (x div 2)))"
  by pat_completeness auto
termination
  by (relation "measure nat") auto

declare exponent_of.simps [simp del]

text \<open>
  The double nearest to a nonnegative integer: the mantissa \<open>q\<close> of 53 bits is rounded on
  the dropped part \<open>r\<close>, ties going to the even mantissa; a result of \<open>2^1024\<close> or more is
  \<open>Infinity\<close>.
\<close>

definition round_double :: "int \<Rightarrow> jsnum" where
  "round_double x =
     (let e = exponent_of x; q = x div 2 ^ e; r = x mod 2 ^ e;
          q' = (if 2 ^ e < 2 * r \<or> (2 * r = 2 ^ e \<and> odd q) then q + 1 else q);
          y = q' * 2 ^ e
      in if 2 ^ 1024 \<le> y then PosInf else Num y)"

text \<open>The Number for an integer of either sign.\<close>

definition Number_of :: "int \<Rightarrow> jsnum" where
  "Number_of x =
     (if x < 0
      then (case round_double (- x) of Num y \<Rightarrow> Num (- y) | PosInf \<Rightarrow> NegInf | other \<Rightarrow> other)
      else round_double x)"

text \<open>Adding and subtracting an integer constant, as in \<open>x + 1\<close> and \<open>x - 1\<close>.\<close>

fun num_add :: "jsnum \<Rightarrow> int \<Rightarrow> jsnum" where
  "num_add (Num n) k = Number_of (n + k)"
| "num_add other k = other"

fun num_sub :: "jsnum \<Rightarrow> int \<Rightarrow> jsnum" where
  "num_sub (Num n) k = Number_of (n - k)"
| "num_sub other k = other"

definition is_digit :: "char \<Rightarrow> bool" where
  "is_digit c = (c \<in> set ''0123456789'')"

definition digit_val :: "char \<Rightarrow> nat" where
  "digit_val c = length (takeWhile (\<lambda>d. d \<noteq> c) ''0123456789'')"

definition digit_char :: "nat \<Rightarrow> char" where
  "digit_char d = ''0123456789'' ! (d mod 10)"

text \<open>The value of a run of decimal digits, most significant digit first.\<close>

definition parse_digits :: "string \<Rightarrow> nat" where
  "parse_digits ds = foldl (\<lambda>a c. 10 * a + digit_val c) 0 ds"

text \<open>The decimal notation of a natural number, without leading zeros.\<close>

fun dec :: "nat \<Rightarrow> string" where
  "dec n = (if n < 10 then [digit_char n] else dec (n div 10) @ [digit_char (n mod 10)])"

declare dec.simps [simp del]

text \<open>
  \<open>ToString\<close> applied to a Number: the conversion that turns the Number \<open>lineNumber\<close> into
  the property key of \<open>errorMap[lineNumber]\<close>.  It prints the shortest decimal digits that
  read back as the same Number.  Below \<open>2^53\<close> these are the digits of the integer itself.
  From there on, \<open>shortest_digits v m\<close> tries one significant digit, then two, and so on
  (\<open>m\<close> is the number of trailing zeros): of the two multiples of \<open>10^m\<close> around \<open>v\<close>, it
  takes one that rounds to \<open>v\<close>, the nearer one if both do.  A result of up to 21 digits is
  printed in full, a longer one in exponent notation.
\<close>

fun shortest_digits :: "int \<Rightarrow> nat \<Rightarrow> int" where
  "shortest_digits v 0 = v"
| "shortest_digits v (Suc m) =
     (let p = 10 ^ Suc m; lo = (v div p) * p; hi = lo + p;
          ok_lo = (round_double lo = Num v); ok_hi = (round_double hi = Num v)
      in if ok_lo \<and> ok_hi
         then (if v - lo < hi - v then lo
               else if hi - v < v - lo then hi
               else if even (v div p) then lo else hi)
         else if ok_lo then lo
         else if ok_hi then hi
         else shortest_digits v m)"

definition strip_zeros :: "string \<Rightarrow> string" where
  "strip_zeros ds = rev (dropWhile (\<lambda>c. c = CHR ''0'') (rev ds))"

definition format_digits :: "string \<Rightarrow> string" where
  "format_digits ds =
     (let n = int (length ds); sig = strip_zeros ds
      in if n \<le> 21 then ds
         else (if length sig = 1 then sig else hd sig # CHR ''.'' # tl sig) @
              ''e+'' @ dec (nat (n - 1)))"

definition pos_string :: "int \<Rightarrow> string" where
  "pos_string v =
     (if v < 2 ^ 53 then dec (nat v)
      else format_digits (dec (nat (shortest_digits v (length (dec (nat v)) - 1)))))"

fun ToString :: "jsnum \<Rightarrow> string" where
  "ToString NaN = ''NaN''"
| "ToString PosInf = ''Infinity''"
| "ToString NegInf = ''-Infinity''"
| "ToString (Num n) = (if n < 0 then CHR ''-'' # pos_string (- n) else pos_string n)"

declare ToString.simps(4) [simp del]

text \<open>
  \<open>parseInt(s, 10)\<close>: leading white space is skipped, one sign is read, then the longest
  run of decimal digits; without a digit the result is \<open>NaN\<close>, otherwise the Number nearest
  to the value of the run.  The white space is the ASCII part of the language's list;
  \<open>runCode\<close> calls \<open>parseInt\<close> on digit runs and on printed Numbers only, which start with a
  digit, a sign or a letter.
\<close>

definition is_space :: "char \<Rightarrow> bool" where
  "is_space c = (c \<in> set [CHR 0x09, CHR 0x0A, CHR 0x0B, CHR 0x0C, CHR 0x0D, CHR 0x20])"

definition parseInt10 :: "string \<Rightarrow> jsnum" where
  "parseInt10 s =
     (let t = dropWhile is_space s;
          neg = (t \<noteq> [] \<and> hd t = CHR ''-'');
          u = (if t \<noteq> [] \<and> (hd t = CHR ''+'' \<or> hd t = CHR ''-'') then tl t else t);
          z = takeWhile is_digit u
      in if z = [] then NaN
         else if neg then Number_of (- int (parse_digits z))
         else Number_of (int (parse_digits z)))"

subsection \<open>Plain objects\<close>

text \<open>
  A plain object whose property values are strings: its own properties, in the order in
  which they were created.  A property key is a string.
\<close>

type_synonym jsobject = "(string \<times> string) list"

datatype jsvalue = Undefined | Str string | Inherited string

text \<open>
  The names every plain object inherits from \<open>Object.prototype\<close>.  A read of one of them
  on an object that has no own property of that name yields the inherited member.
\<close>

definition Object_prototype_names :: "string list" where
  "Object_prototype_names =
     [''constructor'', ''hasOwnProperty'', ''isPrototypeOf'', ''propertyIsEnumerable'',
      ''toLocaleString'', ''toString'', ''valueOf'', ''__proto__'',
      ''__defineGetter__'', ''__defineSetter__'', ''__lookupGetter__'', ''__lookupSetter__'']"

text \<open>The read \<open>obj[k]\<close>.\<close>

definition get_prop :: "jsobject \<Rightarrow> string \<Rightarrow> jsvalue" where
  "get_prop obj k =
     (case map_of obj k of
        Some v \<Rightarrow> Str v
      | None \<Rightarrow> if k \<in> set Object_prototype_names then Inherited k else Undefined)"

text \<open>
  The assignment \<open>obj[k] = v\<close> for a key that is not an accessor of the prototype (the keys
  assigned by \<open>runCode\<close> are printed Numbers): an existing own property keeps its place and
  gets the new value, a new property is created after all existing ones.
\<close>

definition set_prop :: "jsobject \<Rightarrow> string \<Rightarrow> string \<Rightarrow> jsobject" where
  "set_prop obj k v =
     (if k \<in> set (map fst obj)
      then map (\<lambda>(k', v'). if k' = k then (k', v) else (k', v')) obj
      else obj @ [(k, v)])"

text \<open>
  A property key is an array index when it is the decimal notation of an integer from
  \<open>0\<close> to \<open>2^32 - 2\<close>.
\<close>

definition is_array_index :: "string \<Rightarrow> bool" where
  "is_array_index k =
     (k \<noteq> [] \<and> list_all is_digit k \<and> dec (parse_digits k) = k \<and> parse_digits k < 2 ^ 32 - 1)"

text \<open>
  \<open>Object.keys(obj)\<close>: the own keys that are array indices in ascending numeric order,
  then the remaining keys in the order of their creation.
\<close>

definition Object_keys :: "jsobject \<Rightarrow> string list" where
  "Object_keys obj =
     (let ks = map fst obj
      in sort_key parse_digits (filter is_array_index ks) @
         filter (\<lambda>k. \<not> is_array_index k) ks)"


section \<open>The language tables\<close>

definition LANGUAGE_VERSIONS :: jsobject where
  "LANGUAGE_VERSIONS = [(''python'', ''3.10.0''), (''java'', ''15.0.2'')]"

text \<open>The starter snippets; \<open>tab\<close> is the tabulator \<open>\t\<close> of the source text.\<close>

definition tab :: string where
  "tab = [CHR 0x09]"

definition CODE_SNIPPETS :: jsobject where
  \<open>CODE_SNIPPETS =
     [(''python'',
       ''\<newline>def greet(name):\<newline>'' @ tab @ ''print("Hello, " + name + "!")\<newline>\<newline>greet("Aro")\<newline>''),
      (''java'',
       ''\<newline>public class HelloWorld {\<newline>'' @ tab @
       ''public static void main(String[] args) {\<newline>'' @ tab @ tab @
       ''System.out.println("Hello World");\<newline>'' @ tab @ ''}\<newline>}\<newline>''),
      (''javascript'',
       ''\<newline>function greet(name) {\<newline>'' @ tab @
       ''console.log("Hello, " + name + "!");\<newline>}\<newline>\<newline>greet("Aro");\<newline>''),
      (''typescript'',
       ''\<newline>type Params = {\<newline>'' @ tab @ ''name: string;\<newline>}\<newline>\<newline>function greet(data: Params) {\<newline>'' @ tab @
       ''console.log("Hello, " + data.name + "!");\<newline>}\<newline>\<newline>greet({ name: "Aro" });\<newline>''),
      (''csharp'',
       ''using System;\<newline>\<newline>namespace HelloWorld\<newline>{\<newline>'' @ tab @ ''class Hello { \<newline>'' @ tab @ tab @
       ''static void Main(string[] args) {\<newline>'' @ tab @ tab @ tab @
       ''Console.WriteLine("Hello World in C#");\<newline>'' @ tab @ tab @ ''}\<newline>'' @ tab @ ''}\<newline>}\<newline>''),
      (''php'',
       ''<?php\<newline>\<newline>$name = '' @ [CHR 0x27] @ ''Aro'' @ [CHR 0x27] @ '';\<newline>echo $name;\<newline>'')]\<close>

section \<open>The component state and \<open>runCode\<close>\<close>

subsection \<open>Splitting the error stream and matching a line\<close>

text \<open>\<open>s.split("\n")\<close>: the pieces between newlines, empty pieces included.\<close>

fun split_newline :: "string \<Rightarrow> string list" where
  "split_newline [] = [[]]"
| "split_newline (c # cs) =
     (let rest = split_newline cs
      in if c = CHR 0x0A then [] # rest else (c # hd rest) # tl rest)"

text \<open>
  \<open>result.run.stderr ? result.run.stderr.split("\n") : []\<close>; an absent \<open>stderr\<close>
  (\<open>undefined\<close> or \<open>null\<close>) is \<open>None\<close>, and the empty string is falsy as well.
\<close>

definition errorLines_of :: "string option \<Rightarrow> string list" where
  "errorLines_of stderr =
     (case stderr of
        None \<Rightarrow> []
      | Some s \<Rightarrow> if s \<noteq> [] then split_newline s else [])"

text \<open>\<open>result.run.stdout || ""\<close>.\<close>

definition outputLines_of :: "string option \<Rightarrow> string" where
  "outputLines_of stdout = (case stdout of None \<Rightarrow> [] | Some s \<Rightarrow> if s \<noteq> [] then s else [])"

text \<open>
  \<open>line.match(/line (\d+)/)\<close>: the leftmost position at which \<open>line \<close> is followed by a
  digit; the result is the capture group \<open>match[1]\<close>, the longest run of digits there, or
  \<open>None\<close> for \<open>null\<close>.
\<close>

fun line_match :: "string \<Rightarrow> string option" where
  "line_match [] = None"
| "line_match (c # cs) =
     (let ds = takeWhile is_digit (drop 5 (c # cs))
      in if take 5 (c # cs) = ''line '' \<and> ds \<noteq> [] then Some ds else line_match cs)"

subsection \<open>Building the error map\<close>

text \<open>The body of the \<open>forEach\<close> callback, and the loop over \<open>errorLines\<close>.\<close>

definition errorMap_step :: "jsobject \<Rightarrow> string \<Rightarrow> jsobject" where
  "errorMap_step errorMap line =
     (case line_match line of
        None \<Rightarrow> errorMap
      | Some m1 \<Rightarrow>
          (let lineNumber = num_sub (parseInt10 m1) 1
           in set_prop errorMap (ToString lineNumber) line))"

definition errorMap_of :: "string list \<Rightarrow> jsobject" where
  "errorMap_of errorLines = foldl errorMap_step [] errorLines"

text \<open>
  Lines 61 and 64 to 71 of \<open>runCode\<close> together: from the \<open>stderr\<close> of the result to the
  error map.  The specification calls this step \<open>extractDiagnostics\<close> and the map a
  DiagnosticSet.
\<close>

definition extractDiagnostics :: "string option \<Rightarrow> jsobject" where
  "extractDiagnostics stderr = errorMap_of (errorLines_of stderr)"

subsection \<open>Decorations\<close>

record monaco_range =
  startLineNumber :: jsnum
  startColumn :: int
  endLineNumber :: jsnum
  endColumn :: int

record decoration_options =
  isWholeLine :: bool
  className :: string
  glyphMarginClassName :: string
  hoverMessage :: jsvalue

record decoration =
  drange :: monaco_range
  options :: decoration_options

text \<open>
  \<open>Object.keys(errorMap).map(...)\<close> of lines 77 to 85.  The specification calls this step
  \<open>toAnnotations\<close>.
\<close>

definition decoration_of :: "jsobject \<Rightarrow> string \<Rightarrow> decoration" where
  "decoration_of errorMap lineNumber =
     \<lparr>drange = \<lparr>startLineNumber = num_add (parseInt10 lineNumber) 1, startColumn = 1,
                 endLineNumber = num_add (parseInt10 lineNumber) 1, endColumn = 1\<rparr>,
      options = \<lparr>isWholeLine = True, className = ''error-decoration'',
                  glyphMarginClassName = ''error-icon'',
                  hoverMessage = get_prop errorMap lineNumber\<rparr>\<rparr>"

definition decorations_of :: "jsobject \<Rightarrow> decoration list" where
  "decorations_of errorMap = map (decoration_of errorMap) (Object_keys errorMap)"


subsection \<open>State\<close>

text \<open>
  The editor widget behind \<open>editorRef.current\<close>: its text and the decorations it shows.
  \<open>deltaDecorations([], ds)\<close> removes nothing and adds \<open>ds\<close>.
\<close>

record editor =
  getValue :: string
  shown :: "decoration list"

definition deltaDecorations :: "decoration list \<Rightarrow> editor \<Rightarrow> editor" where
  "deltaDecorations ds ed = ed\<lparr>shown := shown ed @ ds\<rparr>"

record state =
  editorRef :: "editor option"
  language :: string
  errors :: jsobject
  "output" :: string
  console :: "string list"

text \<open>
  What \<open>await executeCode(language, sourceCode)\<close> gives: the call throws, or it returns a
  response whose \<open>run\<close> member may be missing.  \<open>executeCode\<close> lives in another module and
  calls the remote service, so it is a parameter of \<open>runCode\<close>.

  \<open>runCode\<close> reads \<open>editorRef.current.getValue()\<close> before the \<open>try\<close>, so an editor that is not
  mounted makes the call fail with a \<open>TypeError\<close> that nothing catches; an empty source
  returns at once.  Inside the \<open>try\<close>, a thrown error and a response without \<open>run\<close> (the
  read of \<open>result.run.stderr\<close> throws) both end in the \<open>catch\<close>, which logs on the console.
  Otherwise the error map and the output are stored and the decorations are added; the test
  \<open>if (editorRef.current)\<close> holds there, the editor being the one read at the start.
\<close>

record run_result =
  stderr :: "string option"
  stdout :: "string option"

datatype response = Throws string | Returns "run_result option"

datatype js_error = TypeError

definition runCode :: "(string \<Rightarrow> string \<Rightarrow> response) \<Rightarrow> state \<Rightarrow> js_error + state" where
  "runCode executeCode st =
     (case editorRef st of
        None \<Rightarrow> Inl TypeError
      | Some ed \<Rightarrow>
          (let sourceCode = getValue ed
           in if sourceCode = [] then Inr st
              else
                (case executeCode (language st) sourceCode of
                   Throws err \<Rightarrow> Inr (st\<lparr>console := console st @ [err]\<rparr>)
                 | Returns None \<Rightarrow> Inr (st\<lparr>console := console st @ [''TypeError'']\<rparr>)
                 | Returns (Some run) \<Rightarrow>
                     (let errorMap = extractDiagnostics (stderr run);
                          outputLines = outputLines_of (stdout run)
                      in Inr (st\<lparr>errors := errorMap, output := outputLines,
                                 editorRef :=
                                   Some (deltaDecorations (decorations_of errorMap) ed)\<rparr>)))))"


section \<open>Notions used to state the properties\<close>

text \<open>The pattern \<open>line \<close> and a digit at the very start of a string.\<close>

definition pattern_at :: "string \<Rightarrow> bool" where
  "pattern_at s = (take 5 s = ''line '' \<and> takeWhile is_digit (drop 5 s) \<noteq> [])"

text \<open>
  The zero-based line index a line of the error stream stands for: the number after the
  first \<open>line \<close>, minus one.
\<close>

definition line_index :: "string \<Rightarrow> int option" where
  "line_index line =
     (case line_match line of None \<Rightarrow> None | Some ds \<Rightarrow> Some (int (parse_digits ds) - 1))"

text \<open>
  The error streams on which no Number is rounded: every matched number is below \<open>2^53\<close>.
  The line indices of such a stream satisfy \<open>safe_index\<close>.
\<close>

definition safe_line :: "string \<Rightarrow> bool" where
  "safe_line line =
     (case line_match line of None \<Rightarrow> True | Some ds \<Rightarrow> parse_digits ds < 2 ^ 53)"

definition safe_stderr :: "string option \<Rightarrow> bool" where
  "safe_stderr err = list_all safe_line (errorLines_of err)"

definition safe_index :: "int \<Rightarrow> bool" where
  "safe_index i = (- 1 \<le> i \<and> i + 1 < 2 ^ 53)"

text \<open>
  The line indices of a stream in the order in which they are first inserted: the index of
  every matching line, each index kept at its first occurrence only.
\<close>

definition insertion_order :: "string list \<Rightarrow> int list" where
  "insertion_order errorLines = rev (remdups (rev (List.map_filter line_index errorLines)))"



section \<open>Example inputs\<close>

definition example_editor :: editor where
  "example_editor = \<lparr>getValue = ''print(x)'', shown = []\<rparr>"

definition example_state :: state where
  "example_state =
     \<lparr>editorRef = Some example_editor, language = ''python'',
      errors = [(''1'', ''line 2'')], output = ''hello'', console = []\<rparr>"

definition example_run :: "string \<Rightarrow> run_result" where
  "example_run out = \<lparr>stderr = Some ''line 5\<newline>line 3'', stdout = Some out\<rparr>"

definition example_traceback :: string where
  \<open>example_traceback =
     ''File "a.py", line 3\<newline>    print(x)\<newline>NameError: name 'x' is not defined''\<close>

definition example_stream :: string where
  "example_stream = ''warning on line 5\<newline>note\<newline>line 3: error\<newline>error on line 5''"

section \<open>Decimal notation and \<open>parseInt\<close>\<close>

lemma is_digit_digit_char: "is_digit (digit_char d)"
proof -
  have "d mod 10 < length ''0123456789''" by simp
  then have "''0123456789'' ! (d mod 10) \<in> set ''0123456789''" by (rule nth_mem)
  then show ?thesis by (simp only: is_digit_def digit_char_def)
qed

lemma digit_val_table: "list_all (\<lambda>d. digit_val (digit_char d) = d) [0..<10]"
  by code_simp

lemma digit_val_digit_char: "d < 10 \<Longrightarrow> digit_val (digit_char d) = d"
  using digit_val_table by (simp add: list_all_iff)

lemma parse_digits_Nil: "parse_digits [] = 0"
  by (simp add: parse_digits_def)

lemma parse_digits_snoc: "parse_digits (ds @ [c]) = 10 * parse_digits ds + digit_val c"
  by (simp add: parse_digits_def)

lemma parse_digits_dec: "parse_digits (dec n) = n"
proof (induction n rule: dec.induct)
  case (1 n)
  show ?case
  proof (cases "n < 10")
    case True
    then show ?thesis
      by (subst dec.simps) (simp add: parse_digits_def digit_val_digit_char)
  next
    case False
    with 1 have "parse_digits (dec (n div 10)) = n div 10" by simp
    with False show ?thesis
      by (subst dec.simps) (simp add: parse_digits_snoc digit_val_digit_char)
  qed
qed

lemma dec_digits: "list_all is_digit (dec n)"
proof (induction n rule: dec.induct)
  case (1 n)
  then show ?case
    by (subst dec.simps) (simp add: is_digit_digit_char)
qed

lemma dec_not_Nil: "dec n \<noteq> []"
  by (subst dec.simps) simp

lemma dec_inj: "dec m = dec n \<Longrightarrow> m = n"
  by (metis parse_digits_dec)

lemma takeWhile_all: "list_all P xs \<Longrightarrow> takeWhile P xs = xs"
  by (induction xs) auto

lemma digit_not_space: "is_digit c \<Longrightarrow> \<not> is_space c"
  by (auto simp: is_digit_def is_space_def)

lemma digit_not_sign: "is_digit c \<Longrightarrow> c \<noteq> CHR ''-'' \<and> c \<noteq> CHR ''+''"
  by (auto simp: is_digit_def)

lemmas dec_numeral = dec.simps [of "numeral k" for k] dec.simps [of 0] dec.simps [of "Suc 0"]

lemmas exponent_of_numeral = exponent_of.simps [of "numeral k" for k]

lemma round_double_small: "x < 2 ^ 53 \<Longrightarrow> round_double x = Num x"
  by (simp add: round_double_def exponent_of.simps Let_def)

lemma Number_of_small:
  assumes "- (2 ^ 53) < x" and "x < 2 ^ 53"
  shows "Number_of x = Num x"
proof (cases "x < 0")
  case True
  with assms have "round_double (- x) = Num (- x)" by (intro round_double_small) simp
  with True show ?thesis by (simp add: Number_of_def)
next
  case False
  with assms show ?thesis by (simp add: Number_of_def round_double_small)
qed

lemma parseInt10_digits:
  assumes "ds \<noteq> []" and "list_all is_digit ds"
  shows "parseInt10 ds = Number_of (int (parse_digits ds))"
proof -
  from assms obtain c cs where ds: "ds = c # cs" and c: "is_digit c"
    by (cases ds) auto
  have t: "dropWhile is_space ds = ds"
    using c by (simp add: ds digit_not_space)
  have h: "hd ds \<noteq> CHR ''-''" "hd ds \<noteq> CHR ''+''"
    using digit_not_sign [OF c] by (simp_all add: ds)
  have z: "takeWhile is_digit ds = ds"
    using assms(2) by (rule takeWhile_all)
  show ?thesis
    unfolding parseInt10_def t Let_def by (simp only: h z assms(1) if_False simp_thms)
qed

lemma parseInt10_minus:
  assumes "ds \<noteq> []" and "list_all is_digit ds"
  shows "parseInt10 (CHR ''-'' # ds) = Number_of (- int (parse_digits ds))"
proof -
  have t: "dropWhile is_space (CHR ''-'' # ds) = CHR ''-'' # ds"
    by (simp add: is_space_def)
  have z: "takeWhile is_digit ds = ds"
    using assms(2) by (rule takeWhile_all)
  show ?thesis
    unfolding parseInt10_def t Let_def
    by (simp only: list.sel z assms(1) if_True if_False simp_thms list.simps)
qed

lemma ToString_small:
  assumes "- (2 ^ 53) < n" and "n < 2 ^ 53"
  shows "ToString (Num n) = (if n < 0 then CHR ''-'' # dec (nat (- n)) else dec (nat n))"
  using assms by (simp add: ToString.simps pos_string_def)

lemma parseInt10_ToString:
  assumes "- (2 ^ 53) < n" and "n < 2 ^ 53"
  shows "parseInt10 (ToString (Num n)) = Num n"
proof (cases "n < 0")
  case True
  with assms have "Number_of (- int (nat (- n))) = Num n"
    by (simp add: Number_of_small)
  with True assms show ?thesis
    unfolding ToString_small [OF assms]
    by (simp add: parseInt10_minus dec_digits dec_not_Nil parse_digits_dec)
next
  case False
  with assms have "Number_of (int (nat n)) = Num n"
    by (simp add: Number_of_small)
  with False assms show ?thesis
    unfolding ToString_small [OF assms]
    by (simp add: parseInt10_digits dec_digits dec_not_Nil parse_digits_dec)
qed

lemma safe_index_bounds: "safe_index i \<Longrightarrow> - (2 ^ 53) < i \<and> i < 2 ^ 53 \<and> i + 1 < 2 ^ 53"
  by (simp add: safe_index_def)

lemma parseInt10_key: "safe_index i \<Longrightarrow> parseInt10 (ToString (Num i)) = Num i"
  using safe_index_bounds [of i] by (simp add: parseInt10_ToString)

lemma ToString_inj:
  assumes "safe_index m" and "safe_index n" and "ToString (Num m) = ToString (Num n)"
  shows "m = n"
proof -
  from assms(3) have "parseInt10 (ToString (Num m)) = parseInt10 (ToString (Num n))" by simp
  with assms(1,2) show ?thesis by (simp add: parseInt10_key)
qed

lemma num_add_key: "safe_index i \<Longrightarrow> num_add (parseInt10 (ToString (Num i))) 1 = Num (i + 1)"
  using safe_index_bounds [of i] by (simp add: parseInt10_key Number_of_small)




section \<open>What the regular expression matches\<close>

lemma line_match_Cons:
  "line_match (c # cs) =
     (if pattern_at (c # cs) then Some (takeWhile is_digit (drop 5 (c # cs))) else line_match cs)"
  by (simp add: pattern_at_def Let_def del: take_Suc_Cons drop_Suc_Cons)

declare line_match.simps(2) [simp del]

lemma pattern_at_iff: "pattern_at s = (\<exists>d v. is_digit d \<and> s = ''line '' @ d # v)"
proof
  assume p: "pattern_at s"
  then have nz: "takeWhile is_digit (drop 5 s) \<noteq> []" by (simp add: pattern_at_def)
  then obtain d v where dv: "drop 5 s = d # v" by (cases "drop 5 s") auto
  with nz have "is_digit d" by (auto split: if_splits)
  moreover have "s = take 5 s @ drop 5 s" by simp
  with p dv have "s = ''line '' @ d # v" by (simp add: pattern_at_def)
  ultimately show "\<exists>d v. is_digit d \<and> s = ''line '' @ d # v" by blast
next
  assume "\<exists>d v. is_digit d \<and> s = ''line '' @ d # v"
  then show "pattern_at s" by (auto simp: pattern_at_def)
qed

lemma line_match_digits:
  "line_match l = Some ds \<Longrightarrow> ds \<noteq> [] \<and> list_all is_digit ds"
proof (induction l)
  case Nil
  then show ?case by simp
next
  case (Cons c cs)
  show ?case
  proof (cases "pattern_at (c # cs)")
    case True
    with Cons.prems have ds: "ds = takeWhile is_digit (drop 5 (c # cs))"
      by (simp add: line_match_Cons)
    with True have "ds \<noteq> []" by (simp add: pattern_at_def)
    moreover have "list_all is_digit ds"
      unfolding ds list_all_iff by (auto dest: set_takeWhileD)
    ultimately show ?thesis by simp
  next
    case False
    with Cons show ?thesis by (simp add: line_match_Cons)
  qed
qed

lemma line_match_None_iff:
  "line_match l = None \<longleftrightarrow> \<not> (\<exists>u d v. is_digit d \<and> l = u @ ''line '' @ d # v)"
proof (induction l)
  case Nil
  then show ?case by simp
next
  case (Cons c cs)
  have split: "(\<exists>u d v. is_digit d \<and> c # cs = u @ ''line '' @ d # v) \<longleftrightarrow>
      pattern_at (c # cs) \<or> (\<exists>u d v. is_digit d \<and> cs = u @ ''line '' @ d # v)"
    (is "?L \<longleftrightarrow> ?P \<or> ?R")
  proof
    assume ?L
    then obtain u d v where d: "is_digit d" and eq: "c # cs = u @ ''line '' @ d # v" by blast
    show "?P \<or> ?R"
    proof (cases u)
      case Nil
      with d eq have "pattern_at (c # cs)" unfolding pattern_at_iff by auto
      then show ?thesis ..
    next
      case (Cons a u')
      with eq have "cs = u' @ ''line '' @ d # v" by simp
      with d have ?R by blast
      then show ?thesis ..
    qed
  next
    assume "?P \<or> ?R"
    then show ?L
    proof
      assume ?P
      then obtain d v where "is_digit d" "c # cs = [] @ ''line '' @ d # v"
        unfolding pattern_at_iff by auto
      then show ?L by blast
    next
      assume ?R
      then obtain u d v where "is_digit d" "cs = u @ ''line '' @ d # v" by blast
      then have "is_digit d \<and> c # cs = (c # u) @ ''line '' @ d # v" by simp
      then show ?L by blast
    qed
  qed
  show ?case
    unfolding split using Cons.IH by (simp add: line_match_Cons)
qed

lemma pattern_at_append:
  assumes "6 \<le> length x"
  shows "pattern_at (x @ y) = pattern_at x"
proof -
  from assms have "drop 5 x \<noteq> []" by simp
  with assms show ?thesis
    by (simp add: pattern_at_def takeWhile_eq_Nil_iff)
qed

lemma takeWhile_digits_append:
  assumes "list_all is_digit ds" and "v = [] \<or> \<not> is_digit (hd v)"
  shows "takeWhile is_digit (ds @ v) = ds"
  using assms by (cases v) (auto simp: list_all_iff takeWhile_append2)

lemma line_match_first_occurrence:
  assumes "ds \<noteq> []" and "list_all is_digit ds" and "v = [] \<or> \<not> is_digit (hd v)"
    and "line_match (u @ ''line '') = None"
  shows "line_match (u @ ''line '' @ ds @ v) = Some ds"
  using assms(4)
proof (induction u)
  case Nil
  have tw: "takeWhile is_digit (ds @ v) = ds"
    using assms(2,3) by (rule takeWhile_digits_append)
  from assms(1) obtain d ds' where "ds = d # ds'" by (cases ds) auto
  then show ?case using tw by (simp add: line_match_Cons pattern_at_def)
next
  case (Cons c u)
  from Cons.prems have np: "\<not> pattern_at (c # u @ ''line '')" and rest: "line_match (u @ ''line '') = None"
    by (auto simp: line_match_Cons split: if_splits)
  have "pattern_at ((c # u @ ''line '') @ ds @ v) = pattern_at (c # u @ ''line '')"
    by (rule pattern_at_append) simp
  with np have "\<not> pattern_at (c # u @ ''line '' @ ds @ v)" by simp
  then show ?case using Cons.IH [OF rest] by (simp add: line_match_Cons)
qed

section \<open>Objects and the error map\<close>

lemma safe_index_of_line: "safe_line l \<Longrightarrow> line_index l = Some i \<Longrightarrow> safe_index i"
  by (auto simp: safe_line_def line_index_def safe_index_def split: option.splits)



lemma errorMap_step_index:
  assumes "safe_line l"
  shows "errorMap_step em l =
     (case line_index l of None \<Rightarrow> em | Some i \<Rightarrow> set_prop em (ToString (Num i)) l)"
proof (cases "line_match l")
  case None
  then show ?thesis by (simp add: errorMap_step_def line_index_def)
next
  case (Some ds)
  with assms have b: "int (parse_digits ds) < 2 ^ 53" by (simp add: safe_line_def)
  from Some have "parseInt10 ds = Number_of (int (parse_digits ds))"
    using line_match_digits [OF Some] by (simp add: parseInt10_digits)
  also have "\<dots> = Num (int (parse_digits ds))"
    using b by (intro Number_of_small) simp_all
  finally have "num_sub (parseInt10 ds) 1 = Number_of (int (parse_digits ds) - 1)" by simp
  also have "\<dots> = Num (int (parse_digits ds) - 1)"
    using b by (intro Number_of_small) simp_all
  finally show ?thesis using Some by (simp add: errorMap_step_def line_index_def)
qed

lemma keys_set_prop:
  "map fst (set_prop obj k v) = (if k \<in> set (map fst obj) then map fst obj else map fst obj @ [k])"
proof -
  have "map fst (map (\<lambda>(k', v'). if k' = k then (k', v) else (k', v')) obj) = map fst obj"
    by (induction obj) auto
  then show ?thesis by (simp add: set_prop_def)
qed

lemma map_of_overwrite_hit:
  "k \<in> fst ` set obj \<Longrightarrow>
   map_of (map (\<lambda>(k', v'). if k' = k then (k', v) else (k', v')) obj) k = Some v"
proof (induction obj)
  case Nil
  then show ?case by simp
next
  case (Cons e obj)
  obtain a b where e: "e = (a, b)" by (cases e)
  show ?case
  proof (cases "a = k")
    case True
    then show ?thesis by (simp add: e)
  next
    case False
    with Cons.prems have "k \<in> fst ` set obj" by (auto simp: e)
    from Cons.IH [OF this] False show ?thesis by (simp add: e)
  qed
qed

lemma map_of_overwrite_other:
  "x \<noteq> k \<Longrightarrow>
   map_of (map (\<lambda>(k', v'). if k' = k then (k', v) else (k', v')) obj) x = map_of obj x"
proof (induction obj)
  case Nil
  then show ?case by simp
next
  case (Cons e obj)
  obtain a b where e: "e = (a, b)" by (cases e)
  from Cons show ?case by (cases "a = k") (simp_all add: e)
qed

lemma map_of_set_prop: "map_of (set_prop obj k v) = (map_of obj)(k \<mapsto> v)"
proof (cases "k \<in> set (map fst obj)")
  case True
  then have k: "k \<in> fst ` set obj" by simp
  show ?thesis
  proof
    fix x
    show "map_of (set_prop obj k v) x = ((map_of obj)(k \<mapsto> v)) x"
      using True map_of_overwrite_hit [OF k, of v] map_of_overwrite_other [of x k v obj]
      by (cases "x = k") (simp_all add: set_prop_def)
  qed
next
  case False
  then have n: "map_of obj k = None" by (simp add: map_of_eq_None_iff)
  show ?thesis
  proof
    fix x
    show "map_of (set_prop obj k v) x = ((map_of obj)(k \<mapsto> v)) x"
      using False n by (cases "x = k") (simp_all add: set_prop_def map_add_def split: option.splits)
  qed
qed

lemma errorMap_of_Nil: "errorMap_of [] = []"
  by (simp add: errorMap_of_def)

lemma errorMap_of_snoc: "errorMap_of (ls @ [l]) = errorMap_step (errorMap_of ls) l"
  by (simp add: errorMap_of_def)

lemma insertion_order_Nil: "insertion_order [] = []"
  by (simp add: insertion_order_def map_filter_simps)

lemma insertion_order_snoc:
  "insertion_order (ls @ [l]) =
     (case line_index l of
        None \<Rightarrow> insertion_order ls
      | Some i \<Rightarrow> if i \<in> set (insertion_order ls) then insertion_order ls
                  else insertion_order ls @ [i])"
  by (auto simp: insertion_order_def map_filter_def split: option.splits)

lemma set_insertion_order:
  "set (insertion_order ls) = {i. \<exists>l \<in> set ls. line_index l = Some i}"
  by (force simp: insertion_order_def map_filter_def image_iff)

lemma distinct_insertion_order: "distinct (insertion_order ls)"
  by (simp add: insertion_order_def)

lemma safe_insertion_order:
  assumes "list_all safe_line ls" and "i \<in> set (insertion_order ls)"
  shows "safe_index i"
proof -
  from assms(2) obtain l where "l \<in> set ls" "line_index l = Some i"
    unfolding set_insertion_order by blast
  with assms(1) show ?thesis by (auto simp: list_all_iff intro: safe_index_of_line)
qed

lemma keys_errorMap_of:
  "list_all safe_line ls \<Longrightarrow>
   map fst (errorMap_of ls) = map (ToString \<circ> Num) (insertion_order ls)"
proof (induction ls rule: rev_induct)
  case Nil
  show ?case by (simp add: errorMap_of_Nil insertion_order_Nil)
next
  case (snoc l ls)
  then have safe: "list_all safe_line ls" and l: "safe_line l" by simp_all
  note IH = snoc.IH [OF safe]
  show ?case
  proof (cases "line_index l")
    case None
    with IH l show ?thesis
      by (simp add: errorMap_of_snoc errorMap_step_index insertion_order_snoc)
  next
    case (Some i)
    have i: "safe_index i" using l Some by (rule safe_index_of_line)
    have "ToString (Num i) \<in> set (map fst (errorMap_of ls)) \<longleftrightarrow> i \<in> set (insertion_order ls)"
    proof
      assume "ToString (Num i) \<in> set (map fst (errorMap_of ls))"
      then obtain j where j: "j \<in> set (insertion_order ls)"
        and eq: "ToString (Num i) = ToString (Num j)"
        unfolding IH by auto
      from safe j have "safe_index j" by (rule safe_insertion_order)
      with i eq have "i = j" by (intro ToString_inj)
      with j show "i \<in> set (insertion_order ls)" by simp
    next
      assume "i \<in> set (insertion_order ls)"
      then show "ToString (Num i) \<in> set (map fst (errorMap_of ls))"
        unfolding IH by simp
    qed
    with IH Some l show ?thesis
      by (simp add: errorMap_of_snoc errorMap_step_index insertion_order_snoc keys_set_prop)
  qed
qed

lemma distinct_keys_errorMap_of:
  assumes "list_all safe_line ls"
  shows "distinct (map fst (errorMap_of ls))"
proof -
  have "inj_on (ToString \<circ> Num) (set (insertion_order ls))"
    by (rule inj_onI) (auto intro: ToString_inj safe_insertion_order [OF assms])
  then show ?thesis
    unfolding keys_errorMap_of [OF assms] by (simp add: distinct_map distinct_insertion_order)
qed

lemma map_of_errorMap_of:
  "list_all safe_line ls \<Longrightarrow> safe_index i \<Longrightarrow>
   map_of (errorMap_of ls) (ToString (Num i)) =
     (if filter (\<lambda>l. line_index l = Some i) ls = [] then None
      else Some (last (filter (\<lambda>l. line_index l = Some i) ls)))"
proof (induction ls rule: rev_induct)
  case Nil
  show ?case by (simp add: errorMap_of_Nil)
next
  case (snoc l ls)
  then have safe: "list_all safe_line ls" and l: "safe_line l" by simp_all
  note IH = snoc.IH [OF safe snoc.prems(2)]
  show ?case
  proof (cases "line_index l")
    case None
    with IH l show ?thesis
      by (simp add: errorMap_of_snoc errorMap_step_index)
  next
    case (Some j)
    have j: "safe_index j" using l Some by (rule safe_index_of_line)
    show ?thesis
    proof (cases "j = i")
      case True
      with Some l show ?thesis
        by (simp add: errorMap_of_snoc errorMap_step_index map_of_set_prop)
    next
      case False
      then have "ToString (Num i) \<noteq> ToString (Num j)"
        using ToString_inj [OF snoc.prems(2) j] by blast
      with False Some IH l show ?thesis
        by (simp add: errorMap_of_snoc errorMap_step_index map_of_set_prop)
    qed
  qed
qed


lemma get_prop_own: "map_of obj k = Some v \<Longrightarrow> get_prop obj k = Str v"
  by (simp add: get_prop_def)

lemma set_Object_keys: "set (Object_keys obj) = set (map fst obj)"
  by (auto simp: Object_keys_def Let_def)

lemma length_Object_keys: "length (Object_keys obj) = length obj"
proof -
  have "length (filter is_array_index ks) + length (filter (\<lambda>k. \<not> is_array_index k) ks) = length ks"
    for ks :: "string list"
    by (induction ks) auto
  from this [of "map fst obj"] show ?thesis by (simp add: Object_keys_def Let_def)
qed







lemma errorLines_of_empty: "errorLines_of None = []" "errorLines_of (Some []) = []"
  by (simp_all add: errorLines_of_def)

lemma errorMap_of_no_match:
  "\<forall>line\<in>set ls. line_match line = None \<Longrightarrow> errorMap_of ls = []"
proof (induction ls rule: rev_induct)
  case Nil
  show ?case by (rule errorMap_of_Nil)
next
  case (snoc l ls)
  then show ?case by (simp add: errorMap_of_snoc errorMap_step_def)
qed

lemma Object_keys_Nil: "Object_keys [] = []"
  by (simp add: Object_keys_def)

lemma runCode_returns:
  assumes "editorRef st = Some ed" and "getValue ed \<noteq> []"
    and "ex (language st) (getValue ed) = Returns (Some run)"
  shows "runCode ex st =
     Inr (st\<lparr>errors := extractDiagnostics (stderr run), output := outputLines_of (stdout run),
             editorRef := Some (deltaDecorations
               (decorations_of (extractDiagnostics (stderr run))) ed)\<rparr>)"
  using assms by (simp add: runCode_def Let_def)

lemma runCode_throws:
  assumes "editorRef st = Some ed" and "getValue ed \<noteq> []"
    and "ex (language st) (getValue ed) = Throws e"
  shows "runCode ex st = Inr (st\<lparr>console := console st @ [e]\<rparr>)"
  using assms by (simp add: runCode_def Let_def)

lemma line_index_Some:
  "line_match line = Some ds \<Longrightarrow> line_index line = Some (int (parse_digits ds) - 1)"
  by (simp add: line_index_def)

lemma get_prop_errorMap_step:
  assumes "safe_line line" and "line_index line = Some i"
  shows "get_prop (errorMap_step em line) (ToString (Num i)) = Str line"
  using assms by (simp add: errorMap_step_index map_of_set_prop get_prop_own)

lemma key_present:
  assumes "list_all safe_line ls" and "line \<in> set ls" and "line_index line = Some i"
  shows "ToString (Num i) \<in> set (map fst (errorMap_of ls))"
proof -
  from assms(2,3) have "i \<in> set (insertion_order ls)"
    unfolding set_insertion_order by blast
  then show ?thesis unfolding keys_errorMap_of [OF assms(1)] by simp
qed

lemma get_prop_errorMap_of:
  assumes "list_all safe_line ls" and "line \<in> set ls" and "line_index line = Some i"
  shows "get_prop (errorMap_of ls) (ToString (Num i)) =
           Str (last (filter (\<lambda>l. line_index l = Some i) ls))"
proof -
  from assms have i: "safe_index i"
    by (auto simp: list_all_iff intro: safe_index_of_line)
  from assms(2,3) have "filter (\<lambda>l. line_index l = Some i) ls \<noteq> []"
    by (auto simp: filter_empty_conv)
  then show ?thesis by (simp add: map_of_errorMap_of [OF assms(1) i] get_prop_own)
qed

lemma last_matching:
  assumes "line_index line = Some i"
  shows "last (filter (\<lambda>l. line_index l = Some i) (pre @ line # post)) \<in> set (line # post) \<and>
         line_index (last (filter (\<lambda>l. line_index l = Some i) (pre @ line # post))) = Some i \<and>
         ((\<forall>l\<in>set post. line_index l \<noteq> Some i) \<longrightarrow>
            last (filter (\<lambda>l. line_index l = Some i) (pre @ line # post)) = line)"
proof -
  let ?P = "\<lambda>l. line_index l = Some i"
  have ne: "filter ?P (line # post) \<noteq> []" using assms by simp
  have eq: "last (filter ?P (pre @ line # post)) = last (filter ?P (line # post))"
    using ne by (metis filter_append last_appendR)
  have "last (filter ?P (line # post)) \<in> set (filter ?P (line # post))"
    using ne by (rule last_in_set)
  then have a: "last (filter ?P (line # post)) \<in> set (line # post)"
    and b: "line_index (last (filter ?P (line # post))) = Some i"
    by (simp_all only: set_filter mem_Collect_eq)
  have c: "last (filter ?P (line # post)) = line" if "\<forall>l\<in>set post. line_index l \<noteq> Some i"
  proof -
    from that have "filter ?P post = []" by (simp add: filter_empty_conv)
    with assms show ?thesis by simp
  qed
  show ?thesis unfolding eq using a b c by blast
qed

lemma key_of_entry:
  assumes "list_all safe_line ls" and "e \<in> set (errorMap_of ls)"
  shows "\<exists>i l. fst e = ToString (Num i) \<and> safe_index i \<and> l \<in> set ls \<and> line_index l = Some i"
proof -
  from assms(2) have "fst e \<in> set (map fst (errorMap_of ls))" by simp
  then obtain i where k: "fst e = ToString (Num i)" and i: "i \<in> set (insertion_order ls)"
    unfolding keys_errorMap_of [OF assms(1)] by auto
  from i obtain l where "l \<in> set ls" "line_index l = Some i"
    unfolding set_insertion_order by blast
  with k safe_insertion_order [OF assms(1) i] show ?thesis by blast
qed


lemma map_of_entry:
  assumes "list_all safe_line ls" and "(k, msg) \<in> set (errorMap_of ls)"
  shows "map_of (errorMap_of ls) k = Some msg"
  using distinct_keys_errorMap_of [OF assms(1)] assms(2) by (simp add: map_of_eq_Some_iff)

lemma index_lower_bound: "line_index l = Some i \<Longrightarrow> - 1 \<le> i"
  by (auto simp: line_index_def split: option.splits)

lemma decoration_of_index:
  assumes "safe_index i" and "get_prop obj (ToString (Num i)) = Str msg"
  shows "decoration_of obj (ToString (Num i)) =
     \<lparr>drange = \<lparr>startLineNumber = Num (i + 1), startColumn = 1,
                 endLineNumber = Num (i + 1), endColumn = 1\<rparr>,
      options = \<lparr>isWholeLine = True, className = ''error-decoration'',
                  glyphMarginClassName = ''error-icon'', hoverMessage = Str msg\<rparr>\<rparr>"
  using assms by (simp add: decoration_of_def num_add_key)






lemma example_stream_lines:
  "errorLines_of (Some example_stream) =
     [''warning on line 5'', ''note'', ''line 3: error'', ''error on line 5'']"
  by code_simp

lemma example_stream_matches:
  "line_match ''warning on line 5'' = Some ''5''" "line_match ''note'' = None"
  "line_match ''line 3: error'' = Some ''3''" "line_match ''error on line 5'' = Some ''5''"
  by code_simp+

lemma example_digits: "parse_digits ''5'' = 5" "parse_digits ''3'' = 3"
  by code_simp+

lemma example_stream_safe: "safe_stderr (Some example_stream)"
  unfolding safe_stderr_def example_stream_lines
  by (simp add: safe_line_def example_stream_matches example_digits)

lemma example_stream_indices:
  "line_index ''warning on line 5'' = Some 4" "line_index ''note'' = None"
  "line_index ''line 3: error'' = Some 2" "line_index ''error on line 5'' = Some 4"
  by (simp_all add: line_index_def example_stream_matches example_digits)

lemma example_keys: "ToString (Num 2) = ''2''" "ToString (Num 4) = ''4''"
  by (simp_all add: ToString_small dec_numeral digit_char_def)

lemma example_stream_map:
  "extractDiagnostics (Some example_stream) = [(''4'', ''error on line 5''), (''2'', ''line 3: error'')]"
  by code_simp


lemma CODE_SNIPPETS_keys:
  "map fst CODE_SNIPPETS = [''python'', ''java'', ''javascript'', ''typescript'', ''csharp'', ''php'']"
  by (simp add: CODE_SNIPPETS_def)

lemma CODE_SNIPPETS_nonempty: "list_all (\<lambda>e. snd e \<noteq> []) CODE_SNIPPETS"
  by (simp add: CODE_SNIPPETS_def)

lemma get_prop_not_own:
  "k \<notin> set (map fst obj) \<Longrightarrow>
   get_prop obj k = (if k \<in> set Object_prototype_names then Inherited k else Undefined)"
proof -
  assume "k \<notin> set (map fst obj)"
  then have "map_of obj k = None" by (simp add: map_of_eq_None_iff)
  then show ?thesis by (simp add: get_prop_def)
qed


lemma huge_stream_index:
  "num_sub (parseInt10 ''1000000000000000000000'') 1 = Num 1000000000000000000000"
proof -
  have pd: "parse_digits ''1000000000000000000000'' = 1000000000000000000000"
    by (simp add: parse_digits_def digit_val_def)
  have "parseInt10 ''1000000000000000000000'' = Number_of 1000000000000000000000"
    by (subst parseInt10_digits) (simp_all add: is_digit_def pd)
  also have "\<dots> = Num 1000000000000000000000"
    by (simp add: Number_of_def round_double_def exponent_of_numeral Let_def)
  finally show ?thesis
    by (simp add: Number_of_def round_double_def exponent_of_numeral Let_def)
qed

lemma huge_key: "ToString (Num 1000000000000000000000) = ''1e+21''"
proof -
  have r: "round_double 1000000000000000000000 = Num 1000000000000000000000"
    by (simp add: round_double_def exponent_of_numeral Let_def)
  have d: "dec 1000000000000000000000 = ''1000000000000000000000''"
    by (simp add: dec_numeral digit_char_def)
  have f: "format_digits ''1000000000000000000000'' = ''1e+21''"
    by (simp add: format_digits_def Let_def strip_zeros_def dec_numeral digit_char_def)
  show ?thesis
    by (simp add: ToString.simps pos_string_def d f r Let_def round_double_def exponent_of_numeral)
qed

lemma huge_stream_map:
  "extractDiagnostics (Some ''line 1000000000000000000000'') =
     [(''1e+21'', ''line 1000000000000000000000'')]"
proof -
  have l: "errorLines_of (Some ''line 1000000000000000000000'') = [''line 1000000000000000000000'']"
    by code_simp
  have m: "line_match ''line 1000000000000000000000'' = Some ''1000000000000000000000''"
    by code_simp
  have step: "errorMap_step [] ''line 1000000000000000000000'' =
      [(''1e+21'', ''line 1000000000000000000000'')]"
    by (simp add: errorMap_step_def m huge_stream_index huge_key set_prop_def)
  show ?thesis
    by (simp add: extractDiagnostics_def l errorMap_of_def step)
qed


section \<open>Properties of the diagnostics\<close>

text \<open>
  Claim C3.  When no line of the error stream matches \<open>line \<close> followed by digits, the error
  map is empty; this covers the empty string and an absent \<open>stderr\<close>, for which there are no
  lines at all.  Such a run is not an error: \<open>runCode\<close> completes, stores the empty map, adds no
  decoration and logs nothing.
\<close>

theorem extractDiagnostics_no_match:
  "extractDiagnostics None = [] \<and> extractDiagnostics (Some []) = [] \<and>
   ((\<forall>line\<in>set (errorLines_of err). line_match line = None) \<longrightarrow>
      extractDiagnostics err = [] \<and> decorations_of (extractDiagnostics err) = [] \<and>
      (\<forall>st ed ex run.
         editorRef st = Some ed \<and> getValue ed \<noteq> [] \<and>
         ex (language st) (getValue ed) = Returns (Some run) \<and> stderr run = err \<longrightarrow>
         (\<exists>st'. runCode ex st = Inr st' \<and> errors st' = [] \<and> console st' = console st)))"
proof (intro conjI impI)
  show "extractDiagnostics None = []"
    by (simp add: extractDiagnostics_def errorLines_of_empty errorMap_of_Nil)
  show "extractDiagnostics (Some []) = []"
    by (simp add: extractDiagnostics_def errorLines_of_empty errorMap_of_Nil)
next
  assume h: "\<forall>line\<in>set (errorLines_of err). line_match line = None"
  then show e: "extractDiagnostics err = []"
    unfolding extractDiagnostics_def by (rule errorMap_of_no_match)
  then show "decorations_of (extractDiagnostics err) = []"
    by (simp add: decorations_of_def Object_keys_Nil)
  show "\<forall>st ed ex run.
         editorRef st = Some ed \<and> getValue ed \<noteq> [] \<and>
         ex (language st) (getValue ed) = Returns (Some run) \<and> stderr run = err \<longrightarrow>
         (\<exists>st'. runCode ex st = Inr st' \<and> errors st' = [] \<and> console st' = console st)"
  proof (intro allI impI)
    fix st :: state and ed ex run
    assume a: "editorRef st = Some ed \<and> getValue ed \<noteq> [] \<and>
         ex (language st) (getValue ed) = Returns (Some run) \<and> stderr run = err"
    then have "runCode ex st =
      Inr (st\<lparr>errors := extractDiagnostics (stderr run), output := outputLines_of (stdout run),
             editorRef := Some (deltaDecorations
               (decorations_of (extractDiagnostics (stderr run))) ed)\<rparr>)"
      by (intro runCode_returns) simp_all
    with a e show "\<exists>st'. runCode ex st = Inr st' \<and> errors st' = [] \<and> console st' = console st"
      by simp
  qed
qed

theorem extractDiagnostics_no_match_witness:
  "map line_match
     (errorLines_of (Some ''Traceback:\<newline>NameError: name x is not defined on line x'')) =
     [None, None] \<and>
   extractDiagnostics (Some ''Traceback:\<newline>NameError: name x is not defined on line x'') = []"
proof -
  have m: "map line_match
     (errorLines_of (Some ''Traceback:\<newline>NameError: name x is not defined on line x'')) =
     [None, None]"
    by code_simp
  have h: "\<forall>line\<in>set (errorLines_of (Some ''Traceback:\<newline>NameError: name x is not defined on line x'')).
      line_match line = None"
    by code_simp
  with m extractDiagnostics_no_match [of "Some ''Traceback:\<newline>NameError: name x is not defined on line x''"]
  show ?thesis by blast
qed

text \<open>
  Claim C8.  When the call of \<open>executeCode\<close> throws, \<open>runCode\<close> still completes: the error is
  logged on the console, and the error map, the output and the editor with its decorations
  are those of before the run.
\<close>

theorem runCode_execution_failure:
  assumes "editorRef st = Some ed" and "getValue ed \<noteq> []"
    and "executeCode (language st) (getValue ed) = Throws e"
  shows "\<exists>st'. runCode executeCode st = Inr st' \<and> errors st' = errors st \<and>
           output st' = output st \<and> editorRef st' = editorRef st \<and>
           console st' = console st @ [e]"
  using assms runCode_throws [of st ed executeCode e] by simp

theorem runCode_execution_failure_witness:
  "\<exists>st'. runCode (\<lambda>l c. Throws ''Network Error'') example_state = Inr st' \<and>
      errors st' = [(''1'', ''line 2'')] \<and> output st' = ''hello'' \<and>
      editorRef st' = Some example_editor \<and> console st' = [''Network Error'']"
  using runCode_execution_failure [of example_state example_editor "\<lambda>l c. Throws ''Network Error''" "''Network Error''"]
  by (simp add: example_state_def example_editor_def)

text \<open>
  Claim C10.  Two runs whose results carry the same \<open>stderr\<close> produce the same error map and
  the same decorations, whatever their \<open>stdout\<close> and whatever the states they start from;
  the output state is the \<open>stdout\<close> of the run as it is (the empty string when absent).
\<close>

theorem diagnostics_independent_of_stdout:
  assumes "editorRef st1 = Some ed1" and "getValue ed1 \<noteq> []"
    and "ex1 (language st1) (getValue ed1) = Returns (Some run1)"
    and "editorRef st2 = Some ed2" and "getValue ed2 \<noteq> []"
    and "ex2 (language st2) (getValue ed2) = Returns (Some run2)"
    and "stderr run1 = stderr run2"
  shows "\<exists>st1' st2'. runCode ex1 st1 = Inr st1' \<and> runCode ex2 st2 = Inr st2' \<and>
           errors st1' = errors st2' \<and>
           errors st1' = extractDiagnostics (stderr run1) \<and>
           decorations_of (errors st1') = decorations_of (errors st2') \<and>
           output st1' = (case stdout run1 of None \<Rightarrow> [] | Some s \<Rightarrow> s) \<and>
           output st2' = (case stdout run2 of None \<Rightarrow> [] | Some s \<Rightarrow> s)"
proof -
  have o: "outputLines_of x = (case x of None \<Rightarrow> [] | Some s \<Rightarrow> s)" for x
    by (simp add: outputLines_of_def split: option.splits)
  show ?thesis
    using assms(7) runCode_returns [of st1 ed1 ex1 run1, OF assms(1,2,3)]
      runCode_returns [of st2 ed2 ex2 run2, OF assms(4,5,6)]
    by (simp add: o)
qed

theorem diagnostics_independent_of_stdout_witness:
  "\<exists>st1' st2'.
     runCode (\<lambda>l c. Returns (Some (example_run ''one''))) example_state = Inr st1' \<and>
     runCode (\<lambda>l c. Returns (Some (example_run ''two''))) example_state = Inr st2' \<and>
     errors st1' = errors st2' \<and> output st1' = ''one'' \<and> output st2' = ''two''"
proof -
  have h1: "editorRef example_state = Some example_editor"
    by (simp add: example_state_def)
  have h2: "getValue example_editor \<noteq> []"
    by (simp add: example_editor_def)
  have h3: "stderr (example_run ''one'') = stderr (example_run ''two'')"
    by (simp add: example_run_def)
  from diagnostics_independent_of_stdout
    [of example_state example_editor "\<lambda>l c. Returns (Some (example_run ''one''))"
        "example_run ''one''" example_state example_editor
        "\<lambda>l c. Returns (Some (example_run ''two''))" "example_run ''two''",
     OF h1 h2 refl h1 h2 refl h3]
  obtain st1' st2' where
    "runCode (\<lambda>l c. Returns (Some (example_run ''one''))) example_state = Inr st1'"
    "runCode (\<lambda>l c. Returns (Some (example_run ''two''))) example_state = Inr st2'"
    "errors st1' = errors st2'"
    "output st1' = (case stdout (example_run ''one'') of None \<Rightarrow> [] | Some s \<Rightarrow> s)"
    "output st2' = (case stdout (example_run ''two'') of None \<Rightarrow> [] | Some s \<Rightarrow> s)"
    by blast
  then have
    "runCode (\<lambda>l c. Returns (Some (example_run ''one''))) example_state = Inr st1' \<and>
     runCode (\<lambda>l c. Returns (Some (example_run ''two''))) example_state = Inr st2' \<and>
     errors st1' = errors st2' \<and> output st1' = ''one'' \<and> output st2' = ''two''"
    by (simp add: example_run_def)
  then show ?thesis by blast
qed

text \<open>
  Claim C7.  Extracting twice from the same \<open>stderr\<close> gives equal error maps: a second run on
  the state left by the first one, with a result of the same \<open>stderr\<close>, ends with the same
  keys in the same order and the same message for every key.
\<close>

theorem extractDiagnostics_repeatable:
  assumes "editorRef st = Some ed" and "getValue ed \<noteq> []"
    and "ex (language st) (getValue ed) = Returns (Some run)"
    and "ex' (language st) (getValue ed) = Returns (Some run')"
    and "stderr run' = stderr run"
  shows "\<exists>st1 st2. runCode ex st = Inr st1 \<and> runCode ex' st1 = Inr st2 \<and>
           errors st2 = errors st1 \<and>
           map fst (errors st2) = map fst (errors st1) \<and>
           Object_keys (errors st2) = Object_keys (errors st1) \<and>
           (\<forall>k. get_prop (errors st2) k = get_prop (errors st1) k)"
proof -
  let ?ed1 = "deltaDecorations (decorations_of (extractDiagnostics (stderr run))) ed"
  let ?st1 = "st\<lparr>errors := extractDiagnostics (stderr run), output := outputLines_of (stdout run),
             editorRef := Some ?ed1\<rparr>"
  have 1: "runCode ex st = Inr ?st1"
    using assms(1,2,3) by (rule runCode_returns)
  have "runCode ex' ?st1 =
     Inr (?st1\<lparr>errors := extractDiagnostics (stderr run'), output := outputLines_of (stdout run'),
             editorRef := Some (deltaDecorations
               (decorations_of (extractDiagnostics (stderr run'))) ?ed1)\<rparr>)"
    using assms(2,4) by (intro runCode_returns) (simp_all add: deltaDecorations_def)
  with 1 assms(5) show ?thesis by simp
qed

theorem extractDiagnostics_repeatable_witness:
  "\<exists>st1 st2.
     runCode (\<lambda>l c. Returns (Some (example_run ''one''))) example_state = Inr st1 \<and>
     runCode (\<lambda>l c. Returns (Some (example_run ''two''))) st1 = Inr st2 \<and>
     errors st2 = errors st1"
proof -
  have h1: "editorRef example_state = Some example_editor"
    by (simp add: example_state_def)
  have h2: "getValue example_editor \<noteq> []"
    by (simp add: example_editor_def)
  have h3: "stderr (example_run ''two'') = stderr (example_run ''one'')"
    by (simp add: example_run_def)
  from extractDiagnostics_repeatable
    [of example_state example_editor "\<lambda>l c. Returns (Some (example_run ''one''))"
        "example_run ''one''" "\<lambda>l c. Returns (Some (example_run ''two''))" "example_run ''two''",
     OF h1 h2 refl refl h3]
  show ?thesis by blast
qed

text \<open>
  Claim C1, as stated, fails for digit runs from \<open>2^53\<close> on, where a Number is not the
  integer that was written.  For \<open>line 9007199254740993\<close> the run is read as
  \<open>9007199254740992\<close>, so the entry has the key \<open>9007199254740991\<close>, which is not the
  written number minus one.  For \<open>line 1000000000000000000000\<close> the key is \<open>1e+21\<close>.
\<close>

theorem rounded_line_number_counterexample:
  "extractDiagnostics (Some ''line 9007199254740993'') =
     [(''9007199254740991'', ''line 9007199254740993'')] \<and>
   line_match ''line 9007199254740993'' = Some ''9007199254740993'' \<and>
   int (parse_digits ''9007199254740993'') - 1 = 9007199254740992 \<and>
   parseInt10 ''9007199254740991'' = Num 9007199254740991 \<and>
   map fst (extractDiagnostics (Some ''line 1000000000000000000000'')) = [''1e+21'']"
proof -
  have l: "errorLines_of (Some ''line 9007199254740993'') = [''line 9007199254740993'']"
    by code_simp
  have m: "line_match ''line 9007199254740993'' = Some ''9007199254740993''"
    by code_simp
  have pd: "parse_digits ''9007199254740993'' = 9007199254740993"
    by (simp add: parse_digits_def digit_val_def)
  have "parseInt10 ''9007199254740993'' = Number_of 9007199254740993"
    by (subst parseInt10_digits) (simp_all add: is_digit_def pd)
  also have "\<dots> = Num 9007199254740992"
    by (simp add: Number_of_def round_double_def exponent_of_numeral Let_def)
  finally have pi: "parseInt10 ''9007199254740993'' = Num 9007199254740992" .
  have ts: "ToString (Num 9007199254740991) = ''9007199254740991''"
    by (simp add: ToString_small dec_numeral digit_char_def)
  have step: "errorMap_step [] ''line 9007199254740993'' =
      [(''9007199254740991'', ''line 9007199254740993'')]"
    by (simp add: errorMap_step_def m pi Number_of_small ts set_prop_def)
  have ext: "extractDiagnostics (Some ''line 9007199254740993'') =
      [(''9007199254740991'', ''line 9007199254740993'')]"
    by (simp add: extractDiagnostics_def l errorMap_of_def step)
  have pd2: "parse_digits ''9007199254740991'' = 9007199254740991"
    by (simp add: parse_digits_def digit_val_def)
  have reread: "parseInt10 ''9007199254740991'' = Num 9007199254740991"
    by (subst parseInt10_digits) (simp_all add: is_digit_def pd2 Number_of_small)
  from huge_stream_map have huge: "map fst (extractDiagnostics (Some ''line 1000000000000000000000'')) = [''1e+21'']"
    by simp
  from ext m pd reread huge show ?thesis by simp
qed

text \<open>
  Claim C1, amended by the bound.  Let the numbers of the stream be below \<open>2^53\<close>, and let a
  line of it contain \<open>line \<close> followed by digits, with \<open>ds\<close> the digit run at the first such
  place.  Processing the line stores the whole line under the key of the index \<open>n - 1\<close>,
  where \<open>n\<close> is the value of \<open>ds\<close>.  The finished map has that key, the key reads back as
  \<open>n - 1\<close>, and its message is the full text of a line with that index: this very line,
  unless a later line of the stream has the same index.  The traceback of the specification
  gives exactly one entry, at index 2 with the first line as message, and \<open>line 1\<close> gives
  index 0.  The last part says what the match is: in a line that reads \<open>u\<close>, \<open>line \<close>, the
  digits \<open>cs\<close> and a rest \<open>v\<close> that does not go on with a digit, where no match ends before
  \<open>cs\<close>, the digit run found is \<open>cs\<close>.
\<close>

theorem errorMap_records_matching_lines:
  \<open>(safe_stderr err \<and> errorLines_of err = pre @ line # post \<and> line_match line = Some ds \<longrightarrow>
      get_prop (errorMap_step em line) (ToString (Num (int (parse_digits ds) - 1))) = Str line \<and>
      ToString (Num (int (parse_digits ds) - 1)) \<in> set (map fst (extractDiagnostics err)) \<and>
      parseInt10 (ToString (Num (int (parse_digits ds) - 1))) = Num (int (parse_digits ds) - 1) \<and>
      (\<exists>msg\<in>set (line # post).
          line_index msg = line_index line \<and>
          get_prop (extractDiagnostics err) (ToString (Num (int (parse_digits ds) - 1))) = Str msg) \<and>
      ((\<forall>l\<in>set post. line_index l \<noteq> line_index line) \<longrightarrow>
          get_prop (extractDiagnostics err) (ToString (Num (int (parse_digits ds) - 1))) = Str line)) \<and>
   extractDiagnostics (Some example_traceback) = [(''2'', ''File "a.py", line 3'')] \<and>
   extractDiagnostics (Some ''line 1'') = [(''0'', ''line 1'')] \<and>
   (cs \<noteq> [] \<and> list_all is_digit cs \<and> (v = [] \<or> \<not> is_digit (hd v)) \<and>
    line_match (u @ ''line '') = None \<longrightarrow>
      line_match (u @ ''line '' @ cs @ v) = Some cs)\<close>
proof (intro conjI impI)
  assume a: "safe_stderr err \<and> errorLines_of err = pre @ line # post \<and> line_match line = Some ds"
  let ?i = "int (parse_digits ds) - 1"
  let ?ls = "errorLines_of err"
  from a have "safe_stderr err" by blast
  then have safe: "list_all safe_line ?ls" by (simp only: safe_stderr_def)
  from a have li: "line_index line = Some ?i" by (simp add: line_index_Some)
  from a have mem: "line \<in> set ?ls" by simp
  from safe mem have sl: "safe_line line" by (simp add: list_all_iff)
  show "get_prop (errorMap_step em line) (ToString (Num ?i)) = Str line"
    using sl li by (rule get_prop_errorMap_step)
  show "ToString (Num ?i) \<in> set (map fst (extractDiagnostics err))"
    unfolding extractDiagnostics_def using safe mem li by (rule key_present)
  show "parseInt10 (ToString (Num ?i)) = Num ?i"
    using safe_index_of_line [OF sl li] by (rule parseInt10_key)
  have g: "get_prop (extractDiagnostics err) (ToString (Num ?i)) =
             Str (last (filter (\<lambda>l. line_index l = Some ?i) (pre @ line # post)))"
    unfolding extractDiagnostics_def using get_prop_errorMap_of [OF safe mem li] a by simp
  from last_matching [OF li, of pre post]
  show "\<exists>msg\<in>set (line # post). line_index msg = line_index line \<and>
          get_prop (extractDiagnostics err) (ToString (Num ?i)) = Str msg"
    unfolding g li by blast
  assume "\<forall>l\<in>set post. line_index l \<noteq> line_index line"
  with last_matching [OF li, of pre post]
  show "get_prop (extractDiagnostics err) (ToString (Num ?i)) = Str line"
    unfolding g li by simp
next
  show \<open>extractDiagnostics (Some example_traceback) = [(''2'', ''File "a.py", line 3'')]\<close>
    by code_simp
  show "extractDiagnostics (Some ''line 1'') = [(''0'', ''line 1'')]"
    by code_simp
next
  assume "cs \<noteq> [] \<and> list_all is_digit cs \<and> (v = [] \<or> \<not> is_digit (hd v)) \<and>
    line_match (u @ ''line '') = None"
  then show "line_match (u @ ''line '' @ cs @ v) = Some cs"
    by (intro line_match_first_occurrence) simp_all
qed

theorem errorMap_records_matching_lines_witness:
  "safe_stderr (Some example_stream) \<and>
   errorLines_of (Some example_stream) =
     [''warning on line 5'', ''note''] @ ''line 3: error'' # [''error on line 5''] \<and>
   line_match ''line 3: error'' = Some ''3'' \<and>
   line_index ''error on line 5'' = Some 4 \<and>
   get_prop (extractDiagnostics (Some example_stream)) ''2'' = Str ''line 3: error''"
proof -
  have h2: "errorLines_of (Some example_stream) =
     [''warning on line 5'', ''note''] @ ''line 3: error'' # [''error on line 5'']"
    by (simp add: example_stream_lines)
  have later: "\<forall>l\<in>set [''error on line 5'']. line_index l \<noteq> line_index ''line 3: error''"
    by (simp add: example_stream_indices)
  from errorMap_records_matching_lines
      [of "Some example_stream" "[''warning on line 5'', ''note'']" "''line 3: error''"
          "[''error on line 5'']" "''3''" "[]"]
  have "safe_stderr (Some example_stream) \<and>
        errorLines_of (Some example_stream) =
          [''warning on line 5'', ''note''] @ ''line 3: error'' # [''error on line 5''] \<and>
        line_match ''line 3: error'' = Some ''3'' \<longrightarrow>
        ((\<forall>l\<in>set [''error on line 5'']. line_index l \<noteq> line_index ''line 3: error'') \<longrightarrow>
          get_prop (extractDiagnostics (Some example_stream))
            (ToString (Num (int (parse_digits ''3'') - 1))) = Str ''line 3: error'')"
    by blast
  with example_stream_safe h2 example_stream_matches(3) later
  have "get_prop (extractDiagnostics (Some example_stream))
            (ToString (Num (int (parse_digits ''3'') - 1))) = Str ''line 3: error''"
    by blast
  then have "get_prop (extractDiagnostics (Some example_stream)) ''2'' = Str ''line 3: error''"
    by (simp add: example_digits example_keys)
  with example_stream_safe h2 example_stream_matches(3) example_stream_indices(4)
  show ?thesis by blast
qed



text \<open>
  Claim C4, as stated, fails for Numbers that are printed in exponent notation.  For
  \<open>line 1000000000000000000000\<close> the line index is the Number \<open>10^21\<close> and the key is
  \<open>1e+21\<close>; \<open>parseInt\<close> reads the key as 1, so the decoration is on line 2 and not on the
  line index plus one.
\<close>

theorem exponent_key_counterexample:
  "extractDiagnostics (Some ''line 1000000000000000000000'') =
     [(''1e+21'', ''line 1000000000000000000000'')] \<and>
   num_sub (parseInt10 ''1000000000000000000000'') 1 = Num 1000000000000000000000 \<and>
   map (startLineNumber \<circ> drange)
     (decorations_of (extractDiagnostics (Some ''line 1000000000000000000000''))) = [Num 2]"
proof -
  have k: "parseInt10 ''1e+21'' = Num 1"
    by (simp add: parseInt10_def is_space_def is_digit_def parse_digits_def digit_val_def
          Number_of_small)
  have "Object_keys [(''1e+21'', ''line 1000000000000000000000'')] = [''1e+21'']"
    by (simp add: Object_keys_def is_array_index_def is_digit_def)
  then have "map (startLineNumber \<circ> drange)
      (decorations_of [(''1e+21'', ''line 1000000000000000000000'')]) = [Num 2]"
    by (simp add: decorations_of_def decoration_of_def k Number_of_small)
  with huge_stream_map huge_stream_index show ?thesis by simp
qed

text \<open>
  Claim C4, amended by the bound.  For every entry of the error map of a stream whose
  numbers are below \<open>2^53\<close>, with key \<open>k\<close> and message \<open>msg\<close>: the key is the printed form of
  a line index \<open>i\<close>, and the decoration made for it is in the list of decorations, spans the
  one line \<open>i + 1\<close> from column 1 to column 1, is a whole-line decoration and carries \<open>msg\<close>
  as hover text.  There is one decoration for each entry and none besides.
\<close>

theorem decorations_of_errorMap:
  "(safe_stderr err \<and> (k, msg) \<in> set (extractDiagnostics err) \<longrightarrow>
      (\<exists>i. - 1 \<le> i \<and> k = ToString (Num i) \<and> parseInt10 k = Num i \<and>
         decoration_of (extractDiagnostics err) k \<in> set (decorations_of (extractDiagnostics err)) \<and>
         decoration_of (extractDiagnostics err) k =
           \<lparr>drange = \<lparr>startLineNumber = Num (i + 1), startColumn = 1,
                       endLineNumber = Num (i + 1), endColumn = 1\<rparr>,
            options = \<lparr>isWholeLine = True, className = ''error-decoration'',
                        glyphMarginClassName = ''error-icon'', hoverMessage = Str msg\<rparr>\<rparr>)) \<and>
   length (decorations_of (extractDiagnostics err)) = length (extractDiagnostics err) \<and>
   (\<forall>d\<in>set (decorations_of (extractDiagnostics err)).
      \<exists>e\<in>set (extractDiagnostics err). d = decoration_of (extractDiagnostics err) (fst e))"
proof (intro conjI impI)
  let ?obj = "extractDiagnostics err"
  assume a: "safe_stderr err \<and> (k, msg) \<in> set ?obj"
  then have "safe_stderr err" by blast
  then have safe: "list_all safe_line (errorLines_of err)" by (simp only: safe_stderr_def)
  from a have mem: "(k, msg) \<in> set (errorMap_of (errorLines_of err))"
    by (simp add: extractDiagnostics_def)
  from key_of_entry [OF safe mem] obtain i l where k: "k = ToString (Num i)"
    and si: "safe_index i" and l: "line_index l = Some i" by auto
  have g: "get_prop ?obj (ToString (Num i)) = Str msg"
    using map_of_entry [OF safe mem] by (simp add: extractDiagnostics_def k get_prop_own)
  have "k \<in> set (Object_keys ?obj)"
    using a unfolding set_Object_keys by force
  then have "decoration_of ?obj k \<in> set (decorations_of ?obj)"
    by (simp add: decorations_of_def)
  with index_lower_bound [OF l] decoration_of_index [OF si g]
  show "\<exists>i. - 1 \<le> i \<and> k = ToString (Num i) \<and> parseInt10 k = Num i \<and>
         decoration_of ?obj k \<in> set (decorations_of ?obj) \<and>
         decoration_of ?obj k =
           \<lparr>drange = \<lparr>startLineNumber = Num (i + 1), startColumn = 1,
                       endLineNumber = Num (i + 1), endColumn = 1\<rparr>,
            options = \<lparr>isWholeLine = True, className = ''error-decoration'',
                        glyphMarginClassName = ''error-icon'', hoverMessage = Str msg\<rparr>\<rparr>"
    unfolding k using parseInt10_key [OF si] by blast
next
  show "length (decorations_of (extractDiagnostics err)) = length (extractDiagnostics err)"
    by (simp add: decorations_of_def length_Object_keys)
  show "\<forall>d\<in>set (decorations_of (extractDiagnostics err)).
      \<exists>e\<in>set (extractDiagnostics err). d = decoration_of (extractDiagnostics err) (fst e)"
    by (auto simp: decorations_of_def set_Object_keys)
qed

theorem decorations_of_errorMap_witness:
  "safe_stderr (Some example_stream) \<and>
   (''4'', ''error on line 5'') \<in> set (extractDiagnostics (Some example_stream)) \<and>
   decoration_of (extractDiagnostics (Some example_stream)) ''4'' =
     \<lparr>drange = \<lparr>startLineNumber = Num 5, startColumn = 1, endLineNumber = Num 5, endColumn = 1\<rparr>,
      options = \<lparr>isWholeLine = True, className = ''error-decoration'',
                  glyphMarginClassName = ''error-icon'', hoverMessage = Str ''error on line 5''\<rparr>\<rparr>"
proof -
  have m: "(''4'', ''error on line 5'') \<in> set (extractDiagnostics (Some example_stream))"
    by (simp add: example_stream_map)
  from decorations_of_errorMap [of "Some example_stream" "''4''" "''error on line 5''"]
    example_stream_safe m
  obtain i where p: "parseInt10 ''4'' = Num i"
    and d: "decoration_of (extractDiagnostics (Some example_stream)) ''4'' =
           \<lparr>drange = \<lparr>startLineNumber = Num (i + 1), startColumn = 1,
                       endLineNumber = Num (i + 1), endColumn = 1\<rparr>,
            options = \<lparr>isWholeLine = True, className = ''error-decoration'',
                        glyphMarginClassName = ''error-icon'',
                        hoverMessage = Str ''error on line 5''\<rparr>\<rparr>"
    by blast
  have "parseInt10 ''4'' = Num 4"
    using parseInt10_key [of 4] by (simp add: example_keys safe_index_def)
  with p have "i = 4" by simp
  with d example_stream_safe m show ?thesis by simp
qed

text \<open>
  Claim C6, as stated, fails: the line \<open>line 0\<close> matches, and its entry has the key
  \<open>-1\<close>, which reads back as the line index \<open>-1\<close>.
\<close>

theorem negative_line_index_counterexample:
  "map (parseInt10 \<circ> fst) (extractDiagnostics (Some ''line 0'')) = [Num (- 1)]"
  by code_simp

text \<open>
  Claim C6, amended.  For a stream whose numbers are below \<open>2^53\<close>, every key of the error
  map is the index \<open>n - 1\<close> of a matching line, where \<open>n\<close> is the value of its digit run; so
  every line index is an integer of at least \<open>-1\<close>, and it is nonnegative exactly when
  \<open>n\<close> is not zero.
\<close>

theorem line_index_at_least_minus_one:
  "safe_stderr err \<and> (k, msg) \<in> set (extractDiagnostics err) \<longrightarrow>
     (\<exists>line ds. line \<in> set (errorLines_of err) \<and> line_match line = Some ds \<and>
        k = ToString (Num (int (parse_digits ds) - 1)) \<and>
        parseInt10 k = Num (int (parse_digits ds) - 1) \<and>
        - 1 \<le> int (parse_digits ds) - 1 \<and>
        (0 \<le> int (parse_digits ds) - 1 \<longleftrightarrow> parse_digits ds \<noteq> 0))"
proof
  assume a: "safe_stderr err \<and> (k, msg) \<in> set (extractDiagnostics err)"
  then have "safe_stderr err" by blast
  then have safe: "list_all safe_line (errorLines_of err)" by (simp only: safe_stderr_def)
  from a have mem: "(k, msg) \<in> set (errorMap_of (errorLines_of err))"
    by (simp add: extractDiagnostics_def)
  from key_of_entry [OF safe mem] obtain i l where k: "k = ToString (Num i)"
    and si: "safe_index i" and l: "l \<in> set (errorLines_of err)" "line_index l = Some i" by auto
  from l(2) obtain ds where ds: "line_match l = Some ds" and i: "i = int (parse_digits ds) - 1"
    by (auto simp: line_index_def split: option.splits)
  have "parseInt10 k = Num (int (parse_digits ds) - 1)"
    unfolding k using parseInt10_key [OF si] by (simp add: i)
  moreover have "- 1 \<le> int (parse_digits ds) - 1" by simp
  moreover have "0 \<le> int (parse_digits ds) - 1 \<longleftrightarrow> parse_digits ds \<noteq> 0" by auto
  ultimately show "\<exists>line ds. line \<in> set (errorLines_of err) \<and> line_match line = Some ds \<and>
        k = ToString (Num (int (parse_digits ds) - 1)) \<and>
        parseInt10 k = Num (int (parse_digits ds) - 1) \<and>
        - 1 \<le> int (parse_digits ds) - 1 \<and>
        (0 \<le> int (parse_digits ds) - 1 \<longleftrightarrow> parse_digits ds \<noteq> 0)"
    using l(1) ds k i by blast
qed

theorem line_index_at_least_minus_one_witness:
  "safe_stderr (Some example_stream) \<and>
   (''2'', ''line 3: error'') \<in> set (extractDiagnostics (Some example_stream)) \<and>
   (\<exists>line ds. line \<in> set (errorLines_of (Some example_stream)) \<and> line_match line = Some ds \<and>
      parseInt10 ''2'' = Num (int (parse_digits ds) - 1) \<and> - 1 \<le> int (parse_digits ds) - 1)"
proof -
  have m: "(''2'', ''line 3: error'') \<in> set (extractDiagnostics (Some example_stream))"
    by (simp add: example_stream_map)
  from line_index_at_least_minus_one [of "Some example_stream" "''2''" "''line 3: error''"]
    example_stream_safe m
  have "\<exists>line ds. line \<in> set (errorLines_of (Some example_stream)) \<and> line_match line = Some ds \<and>
      parseInt10 ''2'' = Num (int (parse_digits ds) - 1) \<and> - 1 \<le> int (parse_digits ds) - 1"
    by blast
  with example_stream_safe m show ?thesis by blast
qed




text \<open>
  Claim C9, as stated, fails for the names that a plain object inherits: \<open>constructor\<close> is
  not one of the six languages, yet reading it from the snippet table yields the inherited
  member and not \<open>undefined\<close>.
\<close>

theorem inherited_lookup_counterexample:
  "get_prop CODE_SNIPPETS ''constructor'' = Inherited ''constructor'' \<and>
   map_of CODE_SNIPPETS ''constructor'' = None"
  by code_simp

text \<open>
  Claim C9, amended.  The snippet table has exactly the keys python, java, javascript,
  typescript, csharp and php, each with a non-empty snippet, and the version table exactly
  python and java.  A lookup is a read of a constant table, so it has no effect and never
  raises: one of the six keys gives its snippet, a name inherited from \<open>Object.prototype\<close>
  gives the inherited member, and every other key gives \<open>undefined\<close>.
\<close>

theorem language_tables:
  "map fst CODE_SNIPPETS =
     [''python'', ''java'', ''javascript'', ''typescript'', ''csharp'', ''php''] \<and>
   list_all (\<lambda>e. snd e \<noteq> []) CODE_SNIPPETS \<and>
   map fst LANGUAGE_VERSIONS = [''python'', ''java''] \<and>
   (k \<in> set (map fst CODE_SNIPPETS) \<longrightarrow>
      (\<exists>snippet. snippet \<noteq> [] \<and> get_prop CODE_SNIPPETS k = Str snippet)) \<and>
   (k \<notin> set (map fst CODE_SNIPPETS) \<and> k \<notin> set Object_prototype_names \<longrightarrow>
      get_prop CODE_SNIPPETS k = Undefined) \<and>
   (k \<notin> set (map fst CODE_SNIPPETS) \<and> k \<in> set Object_prototype_names \<longrightarrow>
      get_prop CODE_SNIPPETS k = Inherited k) \<and>
   (k \<notin> set (map fst LANGUAGE_VERSIONS) \<and> k \<notin> set Object_prototype_names \<longrightarrow>
      get_prop LANGUAGE_VERSIONS k = Undefined)"
proof (intro conjI impI)
  show "map fst CODE_SNIPPETS =
     [''python'', ''java'', ''javascript'', ''typescript'', ''csharp'', ''php'']"
    by (rule CODE_SNIPPETS_keys)
  show "list_all (\<lambda>e. snd e \<noteq> []) CODE_SNIPPETS"
    by (rule CODE_SNIPPETS_nonempty)
  show "map fst LANGUAGE_VERSIONS = [''python'', ''java'']"
    by (simp add: LANGUAGE_VERSIONS_def)
next
  assume "k \<in> set (map fst CODE_SNIPPETS)"
  then obtain v where v: "map_of CODE_SNIPPETS k = Some v"
    by (metis map_of_eq_None_iff not_Some_eq set_map)
  then have "(k, v) \<in> set CODE_SNIPPETS" by (rule map_of_SomeD)
  with CODE_SNIPPETS_nonempty have "v \<noteq> []" by (auto simp: list_all_iff)
  with v show "\<exists>snippet. snippet \<noteq> [] \<and> get_prop CODE_SNIPPETS k = Str snippet"
    by (auto simp: get_prop_own)
next
  assume "k \<notin> set (map fst CODE_SNIPPETS) \<and> k \<notin> set Object_prototype_names"
  then show "get_prop CODE_SNIPPETS k = Undefined" by (simp add: get_prop_not_own)
next
  assume "k \<notin> set (map fst CODE_SNIPPETS) \<and> k \<in> set Object_prototype_names"
  then show "get_prop CODE_SNIPPETS k = Inherited k" by (simp add: get_prop_not_own)
next
  assume "k \<notin> set (map fst LANGUAGE_VERSIONS) \<and> k \<notin> set Object_prototype_names"
  then show "get_prop LANGUAGE_VERSIONS k = Undefined" by (simp add: get_prop_not_own)
qed

theorem language_tables_witness:
  "get_prop CODE_SNIPPETS ''ruby'' = Undefined \<and> get_prop LANGUAGE_VERSIONS ''php'' = Undefined \<and>
   (\<exists>snippet. snippet \<noteq> [] \<and> get_prop CODE_SNIPPETS ''php'' = Str snippet)"
proof -
  have r: "''ruby'' \<notin> set (map fst CODE_SNIPPETS) \<and> ''ruby'' \<notin> set Object_prototype_names"
    by (simp add: CODE_SNIPPETS_keys Object_prototype_names_def)
  have p: "''php'' \<in> set (map fst CODE_SNIPPETS)"
    by (simp add: CODE_SNIPPETS_keys)
  have v: "''php'' \<notin> set (map fst LANGUAGE_VERSIONS) \<and> ''php'' \<notin> set Object_prototype_names"
    by (simp add: LANGUAGE_VERSIONS_def Object_prototype_names_def)
  from language_tables [of "''ruby''"] r have "get_prop CODE_SNIPPETS ''ruby'' = Undefined"
    by blast
  moreover from language_tables [of "''php''"] p v
  have "get_prop LANGUAGE_VERSIONS ''php'' = Undefined \<and>
        (\<exists>snippet. snippet \<noteq> [] \<and> get_prop CODE_SNIPPETS ''php'' = Str snippet)"
    by blast
  ultimately show ?thesis by blast
qed

end
